theory Spec2Isabelle
  imports Main "HOL-Library.Sublist" "HOL-Library.AList"
begin

section \<open>The document store of \<open>cli_project/mcp_server.py\<close>\<close>

text \<open>
  The module keeps one process-wide dictionary \<open>docs\<close> from document id to content and
  exposes two tools (\<open>read_doc_contents\<close>, \<open>edit_document\<close>), two resources
  (\<open>list_documents\<close>, \<open>get_document\<close>) and two prompts (\<open>format\<close>, \<open>summarize\<close>).

  A Python \<open>dict\<close> keeps its keys in insertion order and an assignment to a key that is
  already present keeps its position: the store is an association list, looked up with
  \<open>map_of\<close> and assigned with \<open>AList.update\<close>. Every handler takes the store and returns
  its outcome together with the store it leaves behind; a \<open>raise\<close> is the outcome
  \<open>Inl\<close>, with the store as it was when the exception left the handler.
\<close>

subsection \<open>Python's string primitives\<close>

text \<open>
  \<open>sub in s\<close> on strings: \<open>sub\<close> is found at some position of \<open>s\<close>. The scan tries
  every start position from the left; the empty string is found in every string.
\<close>

fun str_contains :: "'a list \<Rightarrow> 'a list \<Rightarrow> bool" where
  "str_contains [] sub = (sub = [])"
| "str_contains (c # cs) sub = (if prefix sub (c # cs) then True else str_contains cs sub)"

text \<open>
  \<open>s.replace(old, new)\<close> for a non-empty \<open>old\<close>: the scan goes from left to right; at a
  position where \<open>old\<close> starts it emits \<open>new\<close> and continues behind the match, elsewhere
  it copies one character.
\<close>

fun replace_scan :: "'a list \<Rightarrow> 'a list \<Rightarrow> 'a list \<Rightarrow> 'a list" where
  "replace_scan old new [] = []"
| "replace_scan old new (c # cs) =
     (if prefix old (c # cs) then new @ replace_scan old new (drop (length old - 1) cs)
      else c # replace_scan old new cs)"

text \<open>
  \<open>s.replace('', new)\<close>: CPython lays \<open>new\<close> down once and then, for every character
  of \<open>s\<close>, the character followed by \<open>new\<close>.
\<close>

definition replace_interleave :: "'a list \<Rightarrow> 'a list \<Rightarrow> 'a list" where
  "replace_interleave new s = new @ concat (map (\<lambda>c. c # new) s)"

definition str_replace :: "'a list \<Rightarrow> 'a list \<Rightarrow> 'a list \<Rightarrow> 'a list" where
  "str_replace s old new =
     (if old = [] then replace_interleave new s else replace_scan old new s)"

subsection \<open>Errors and the store\<close>

text \<open>Both failures are a \<open>ValueError\<close> that carries its message.\<close>

datatype error = ValueError string

text \<open>\<open>'{x}'\<close> inside an f-string: the value between two apostrophes.\<close>

definition quoted :: "string \<Rightarrow> string" where
  "quoted x = CHR 0x27 # x @ [CHR 0x27]"

text \<open>\<open>ValueError(f"Document '{doc_id}' not found")\<close>\<close>

definition NotFound :: "string \<Rightarrow> error" where
  "NotFound doc_id = ValueError (''Document '' @ quoted doc_id @ '' not found'')"

text \<open>\<open>ValueError(f"String '{old_string}' not found in document '{doc_id}'")\<close>\<close>

definition SubstringNotFound :: "string \<Rightarrow> string \<Rightarrow> error" where
  "SubstringNotFound old_string doc_id =
     ValueError (''String '' @ quoted old_string @ '' not found in document '' @ quoted doc_id)"

type_synonym store = "(string \<times> string) list"

type_synonym 'a handler = "store \<Rightarrow> (error + 'a) \<times> store"

definition docs :: store where
  "docs =
    [(''deposition.md'', ''This deposition covers the testimony of Angela Smith, P.E.''),
     (''report.pdf'', ''The report details the state of a 20m condenser tower.''),
     (''financials.docx'', ''These financials outline the project's budget and expenditures.''),
     (''outlook.pdf'', ''This document presents the projected future performance of the system.''),
     (''plan.md'', ''The plan outlines the steps for the project's implementation.''),
     (''spec.txt'', ''These specifications define the technical requirements for the equipment.'')]"

subsection \<open>Tools and resources\<close>

definition read_doc_contents :: "string \<Rightarrow> string handler" where
  "read_doc_contents doc_id s =
     (case map_of s doc_id of
        None \<Rightarrow> (Inl (NotFound doc_id), s)
      | Some content \<Rightarrow> (Inr content, s))"

definition edit_document :: "string \<Rightarrow> string \<Rightarrow> string \<Rightarrow> string handler" where
  "edit_document doc_id old_string new_string s =
     (case map_of s doc_id of
        None \<Rightarrow> (Inl (NotFound doc_id), s)
      | Some content \<Rightarrow>
          if str_contains content old_string
          then (Inr (''Successfully replaced '' @ quoted old_string @ '' with '' @
                     quoted new_string @ '' in '' @ quoted doc_id),
                AList.update doc_id (str_replace content old_string new_string) s)
          else (Inl (SubstringNotFound old_string doc_id), s))"

definition list_documents :: "string list handler" where
  "list_documents s = (Inr (map fst s), s)"

definition get_document :: "string \<Rightarrow> string handler" where
  "get_document doc_id s =
     (case map_of s doc_id of
        None \<Rightarrow> (Inl (NotFound doc_id), s)
      | Some content \<Rightarrow> (Inr content, s))"

subsection \<open>Prompts\<close>

text \<open>The line break inside the triple-quoted f-strings.\<close>

definition nl :: string where
  "nl = [CHR 0x0A]"

definition format :: "string \<Rightarrow> string handler" where
  "format doc_id s =
     (Inr (''Please rewrite the document '' @ quoted doc_id @ '' in proper markdown format.'' @ nl @
           nl @
           ''Steps:'' @ nl @
           ''1. Use the read_doc_contents tool to fetch the current document content'' @ nl @
           ''2. Reformat the content using proper markdown syntax (headers, lists, emphasis, etc.)'' @ nl @
           ''3. Use the edit_document tool to replace the old content with the new markdown-formatted content'' @ nl @
           ''4. Confirm the changes were successful'' @ nl @
           nl @
           ''Make sure to preserve all the original information while improving the formatting.''),
      s)"

definition summarize :: "string \<Rightarrow> string handler" where
  "summarize doc_id s =
     (Inr (''Please provide a concise summary of the document '' @ quoted doc_id @ ''.'' @ nl @
           nl @
           ''Steps:'' @ nl @
           ''1. Use the read_doc_contents tool to fetch the document content'' @ nl @
           ''2. Analyze the key points and main ideas'' @ nl @
           ''3. Provide a brief, clear summary (2-3 sentences)'' @ nl @
           nl @
           ''Focus on the most important information and keep it concise.''),
      s)"

subsection \<open>Sequences of calls\<close>

text \<open>
  The host serves one call at a time, each against the store the previous call left.
  A request names the handler and carries its arguments; \<open>serve\<close> gives the store after
  the call, whether it returned or raised, and \<open>run\<close> serves a list of requests in order.
\<close>

datatype request =
    Read string
  | Edit string string string
  | ListIds
  | GetById string
  | FormatPrompt string
  | SummarizePrompt string

fun serve :: "request \<Rightarrow> store \<Rightarrow> store" where
  "serve (Read doc_id) s = snd (read_doc_contents doc_id s)"
| "serve (Edit doc_id old_string new_string) s = snd (edit_document doc_id old_string new_string s)"
| "serve ListIds s = snd (list_documents s)"
| "serve (GetById doc_id) s = snd (get_document doc_id s)"
| "serve (FormatPrompt doc_id) s = snd (format doc_id s)"
| "serve (SummarizePrompt doc_id) s = snd (summarize doc_id s)"

fun run :: "request list \<Rightarrow> store \<Rightarrow> store" where
  "run [] s = s"
| "run (r # rs) s = run rs (serve r s)"

subsection \<open>What replacing every occurrence means\<close>

text \<open>
  The reading of "replace all non-overlapping occurrences, scanning from the left" for a
  non-empty \<open>old\<close>, stated without reference to the scan: a text without an occurrence
  stays as it is; otherwise the text is cut at its leftmost occurrence
  (\<open>old\<close> is not found in the part before it, extended by all but the last character of
  the occurrence), that occurrence becomes \<open>new\<close>, and the rest behind it is treated the
  same way.
\<close>

inductive replaced_all :: "'a list \<Rightarrow> 'a list \<Rightarrow> 'a list \<Rightarrow> 'a list \<Rightarrow> bool"
  for old new :: "'a list" where
  no_occurrence: "\<not> sublist old s \<Longrightarrow> replaced_all old new s s"
| leftmost: "\<not> sublist old (p @ butlast old) \<Longrightarrow> replaced_all old new rest r \<Longrightarrow>
     replaced_all old new (p @ old @ rest) (p @ new @ r)"

subsection \<open>Where a replacement matches and where it writes\<close>

text \<open>
  The start offsets in \<open>s\<close> at which the scan of \<open>s.replace(pat, _)\<close> matches a non-empty
  \<open>pat\<close>: the same scan as \<open>replace_scan\<close>, recording its matches instead of rewriting them.
\<close>

fun scan_matches :: "'a list \<Rightarrow> 'a list \<Rightarrow> nat list" where
  "scan_matches pat [] = []"
| "scan_matches pat (c # cs) =
     (if prefix pat (c # cs)
      then 0 # map (\<lambda>i. i + length pat) (scan_matches pat (drop (length pat - 1) cs))
      else map Suc (scan_matches pat cs))"


text \<open>
  The start offsets in the result \<open>s.replace(old, new)\<close> of the copies of \<open>new\<close> that the
  replacement wrote: along the scan for a non-empty \<open>old\<close>, before every character and at
  the end for the empty \<open>old\<close>.
\<close>

fun scan_inserted :: "'a list \<Rightarrow> 'a list \<Rightarrow> 'a list \<Rightarrow> nat list" where
  "scan_inserted old new [] = []"
| "scan_inserted old new (c # cs) =
     (if prefix old (c # cs)
      then 0 # map (\<lambda>i. i + length new) (scan_inserted old new (drop (length old - 1) cs))
      else map Suc (scan_inserted old new cs))"

fun interleave_inserted :: "'a list \<Rightarrow> 'a list \<Rightarrow> nat list" where
  "interleave_inserted new [] = [0]"
| "interleave_inserted new (c # cs) =
     0 # map (\<lambda>i. i + (length new + 1)) (interleave_inserted new cs)"

definition inserted_at :: "'a list \<Rightarrow> 'a list \<Rightarrow> 'a list \<Rightarrow> nat list" where
  "inserted_at old new s =
     (if old = [] then interleave_inserted new s else scan_inserted old new s)"

section \<open>Properties of the string primitives\<close>

subsection \<open>Containment\<close>

text \<open>The scan of \<open>in\<close> finds exactly the contiguous sublists.\<close>

lemma str_contains_iff_sublist: "str_contains s sub \<longleftrightarrow> sublist sub s"
  by (induction s) (auto simp: sublist_Cons_right)

subsection \<open>The scan of \<open>replace\<close> against its declarative reading\<close>

lemma prefix_split_drop:
  assumes "prefix old (c # cs)" and "old \<noteq> []"
  shows "c # cs = old @ drop (length old - 1) cs"
proof -
  from assms obtain o' where old: "old = c # o'" and "prefix o' cs"
    by (cases old) auto
  then obtain rest where "cs = o' @ rest"
    by (auto simp: prefix_def)
  then show ?thesis using old by simp
qed

lemma replace_scan_hit:
  assumes "old \<noteq> []"
  shows "replace_scan old new (old @ rest) = new @ replace_scan old new rest"
proof -
  from assms obtain c o' where "old = c # o'" by (cases old) auto
  then show ?thesis by simp
qed

lemma replace_scan_no_occurrence:
  "\<not> sublist old s \<Longrightarrow> replace_scan old new s = s"
  by (induction s) (auto simp: sublist_Cons_right)

lemma not_prefix_before_leftmost:
  assumes "\<not> sublist old ((c # p) @ butlast old)" and "old \<noteq> []"
  shows "\<not> prefix old (c # p @ old @ rest)"
proof
  assume hit: "prefix old (c # p @ old @ rest)"
  have "prefix (butlast old) (old @ rest)"
    by (meson prefix_order.trans prefixeq_butlast prefixI)
  then have "prefix ((c # p) @ butlast old) (c # p @ old @ rest)"
    by simp
  moreover have "length old \<le> length ((c # p) @ butlast old)"
    using assms(2) by simp
  ultimately have "prefix old ((c # p) @ butlast old)"
    using hit prefix_length_prefix by blast
  then show False using assms(1) by (meson prefix_imp_sublist)
qed

lemma replace_scan_leftmost:
  assumes "old \<noteq> []" and "\<not> sublist old (p @ butlast old)"
  shows "replace_scan old new (p @ old @ rest) = p @ new @ replace_scan old new rest"
  using assms(2)
proof (induction p)
  case Nil
  then show ?case using assms(1) by (simp add: replace_scan_hit)
next
  case (Cons c p)
  have np: "\<not> prefix old (c # p @ old @ rest)"
    using not_prefix_before_leftmost[OF Cons.prems assms(1)] .
  have "\<not> sublist old (p @ butlast old)"
    using Cons.prems by (simp add: sublist_Cons_right)
  then show ?case using Cons.IH np by simp
qed

lemma replaced_all_cons_keep:
  assumes "replaced_all old new cs r" and "\<not> prefix old (c # cs)"
  shows "replaced_all old new (c # cs) (c # r)"
  using assms(1)
proof (cases rule: replaced_all.cases)
  case no_occurrence
  then show ?thesis
    using assms(2) by (auto simp: sublist_Cons_right intro: replaced_all.no_occurrence)
next
  case (leftmost p rest r')
  have "\<not> prefix old (c # p @ butlast old)"
  proof
    assume "prefix old (c # p @ butlast old)"
    moreover have "prefix (c # p @ butlast old) (c # cs)"
      unfolding leftmost by (simp add: prefixeq_butlast)
    ultimately show False using assms(2) by (meson prefix_order.trans)
  qed
  then have "\<not> sublist old ((c # p) @ butlast old)"
    using leftmost(3) by (simp add: sublist_Cons_right)
  from replaced_all.leftmost[OF this leftmost(4)] show ?thesis
    unfolding leftmost by simp
qed

lemma replace_scan_replaced_all:
  assumes "old \<noteq> []"
  shows "replaced_all old new s (replace_scan old new s)"
  using assms
proof (induction old new s rule: replace_scan.induct)
  case (1 old new)
  then show ?case by (auto intro: replaced_all.no_occurrence)
next
  case (2 old new c cs)
  show ?case
  proof (cases "prefix old (c # cs)")
    case True
    define rest where "rest = drop (length old - 1) cs"
    have eq: "c # cs = old @ rest"
      unfolding rest_def using prefix_split_drop[OF True "2.prems"] .
    have scan: "replace_scan old new (c # cs) = new @ replace_scan old new rest"
      using True by (simp add: rest_def)
    have "length (butlast old) < length old"
      using "2.prems" by simp
    then have short: "\<not> sublist old ([] @ butlast old)"
      using sublist_length_le[of old "butlast old"] by auto
    have "replaced_all old new rest (replace_scan old new rest)"
      unfolding rest_def using "2.IH"(1)[OF True "2.prems"] .
    from replaced_all.leftmost[OF short this]
    have "replaced_all old new (old @ rest) (new @ replace_scan old new rest)"
      by simp
    then have "replaced_all old new (c # cs) (new @ replace_scan old new rest)"
      by (simp only: eq)
    then show ?thesis
      by (simp only: scan)
  next
    case False
    then show ?thesis
      using replaced_all_cons_keep[OF "2.IH"(2)[OF False "2.prems"] False] by simp
  qed
qed

lemma replaced_all_unique:
  assumes "replaced_all old new s r" and "old \<noteq> []"
  shows "r = replace_scan old new s"
  using assms
proof (induction rule: replaced_all.induct)
  case (no_occurrence s)
  then show ?case by (simp add: replace_scan_no_occurrence)
next
  case (leftmost p rest r)
  then show ?case by (simp add: replace_scan_leftmost)
qed

lemma replaced_all_iff:
  "old \<noteq> [] \<Longrightarrow> replaced_all old new s r \<longleftrightarrow> r = replace_scan old new s"
  using replaced_all_unique replace_scan_replaced_all by blast

subsection \<open>Occurrences after a replacement\<close>

text \<open>Where \<open>old\<close> occurred, the result holds a copy of \<open>new\<close>.\<close>

lemma sublist_replaced:
  assumes "sublist old s"
  shows "sublist new (str_replace s old new)"
proof (cases "old = []")
  case True
  then show ?thesis by (simp add: str_replace_def replace_interleave_def)
next
  case False
  have "sublist old s \<Longrightarrow> sublist new (replace_scan old new s)"
  proof (induction s)
    case Nil
    then show ?case using False by simp
  next
    case (Cons c cs)
    then show ?case by (auto simp: sublist_Cons_right)
  qed
  then show ?thesis using assms False by (simp add: str_replace_def)
qed


lemma scan_inserted_same: "scan_inserted old old s = scan_matches old s"
  by (induction old s rule: scan_matches.induct) simp_all

lemma inserted_at_holds_new:
  "i \<in> set (inserted_at old new s) \<Longrightarrow> prefix new (drop i (str_replace s old new))"
proof (cases "old = []")
  case True
  have "i \<in> set (interleave_inserted new s) \<Longrightarrow>
          prefix new (drop i (replace_interleave new s))" for i
  proof (induction s arbitrary: i)
    case Nil
    then show ?case by (simp add: replace_interleave_def)
  next
    case (Cons c cs)
    have step: "replace_interleave new (c # cs) = new @ c # replace_interleave new cs"
      by (simp add: replace_interleave_def)
    from Cons.prems consider "i = 0"
      | j where "j \<in> set (interleave_inserted new cs)" "i = j + (length new + 1)"
      by auto
    then show ?case
    proof cases
      case 1
      then show ?thesis by (simp add: step)
    next
      case 2
      then show ?thesis using Cons.IH[of j] by (simp add: step)
    qed
  qed
  then show ?thesis
    if "i \<in> set (inserted_at old new s)"
    using that True by (simp add: inserted_at_def str_replace_def)
next
  case False
  have "i \<in> set (scan_inserted old new s) \<Longrightarrow>
          prefix new (drop i (replace_scan old new s))" for i
  proof (induction old new s arbitrary: i rule: replace_scan.induct)
    case (1 old new)
    then show ?case by simp
  next
    case (2 old new c cs)
    show ?case
    proof (cases "prefix old (c # cs)")
      case True
      with "2.prems" consider "i = 0"
        | j where "j \<in> set (scan_inserted old new (drop (length old - 1) cs))"
            "i = j + length new"
        by auto
      then show ?thesis
      proof cases
        case 1
        then show ?thesis using True by simp
      next
        case 2
        then show ?thesis using True "2.IH"(1)[OF True, of j] by simp
      qed
    next
      case False
      with "2.prems" obtain j where "j \<in> set (scan_inserted old new cs)" "i = Suc j"
        by auto
      then show ?thesis using False "2.IH"(2)[OF False, of j] by simp
    qed
  qed
  then show ?thesis
    if "i \<in> set (inserted_at old new s)"
    using that False by (simp add: inserted_at_def str_replace_def)
qed

lemma replace_scan_same_gen:
  assumes "old \<noteq> []" and "new = old"
  shows "replace_scan old new s = s"
  using assms
proof (induction old new s rule: replace_scan.induct)
  case (1 old new)
  then show ?case by simp
next
  case (2 old new c cs)
  show ?case
  proof (cases "prefix old (c # cs)")
    case True
    have "replace_scan old new (c # cs) = new @ drop (length old - 1) cs"
      using True "2.IH"(1)[OF True "2.prems"] by simp
    then show ?thesis
      using "2.prems"(2) prefix_split_drop[OF True "2.prems"(1)] by simp
  next
    case False
    then show ?thesis using "2.IH"(2)[OF False "2.prems"] by simp
  qed
qed

lemma replace_scan_same: "old \<noteq> [] \<Longrightarrow> replace_scan old old s = s"
  by (simp add: replace_scan_same_gen)

lemma scan_matches_occurrence:
  assumes "pat \<noteq> []" and "i \<in> set (scan_matches pat s)"
  shows "prefix pat (drop i s)"
proof -
  have "i \<in> set (inserted_at pat pat s)"
    using assms by (simp add: inserted_at_def scan_inserted_same)
  then have "prefix pat (drop i (str_replace s pat pat))"
    by (rule inserted_at_holds_new)
  then show ?thesis
    using assms(1) by (simp add: str_replace_def replace_scan_same)
qed















text \<open>A single-character \<open>old\<close>: every one of its occurrences is replaced.\<close>

lemma sublist_single: "sublist [x] s \<longleftrightarrow> x \<in> set s"
  by (induction s) (auto simp: sublist_Cons_right)

lemma replace_scan_single_fresh:
  "x \<in> set (replace_scan [x] new s) \<Longrightarrow> x \<in> set new"
  by (induction s) (auto split: if_splits)

subsection \<open>The empty \<open>old\<close>\<close>

lemma replace_interleave_alt:
  "replace_interleave new s = concat (map (\<lambda>c. new @ [c]) s) @ new"
  by (induction s) (simp_all add: replace_interleave_def)

lemma length_replace_interleave:
  "length (replace_interleave new s) = length s + (length s + 1) * length new"
  by (induction s) (simp_all add: replace_interleave_def)

section \<open>Properties of the handlers\<close>

subsection \<open>Messages, lookups and keys\<close>

lemma sublist_quoted: "sublist x (pre @ quoted x @ post)"
proof -
  have "pre @ quoted x @ post = (pre @ [CHR 0x27]) @ x @ ([CHR 0x27] @ post)"
    by (simp add: quoted_def)
  then show ?thesis by (simp only: sublist_appendI)
qed

lemma sublist_quoted_end: "sublist x (pre @ quoted x)"
  using sublist_quoted[of x pre "[]"] by simp

lemma map_of_update_same: "map_of (AList.update k v s) k = Some v"
  by (simp add: update_conv')

lemma update_keeps_keys:
  "map_of s k = Some v \<Longrightarrow> map fst (AList.update k v' s) = map fst s"
  by (auto simp: update_keys dest: map_of_SomeD intro: rev_image_eqI)

lemma serve_keys: "map fst (serve r s) = map fst s"
  by (cases r)
     (auto simp: read_doc_contents_def edit_document_def list_documents_def get_document_def
        format_def summarize_def update_keeps_keys split: option.splits)

lemma run_keys: "map fst (run rs s) = map fst s"
  by (induction rs arbitrary: s) (simp_all add: serve_keys)

lemma edit_document_success:
  assumes "map_of s doc_id = Some content" and "str_contains content old_string"
  shows "edit_document doc_id old_string new_string s =
           (Inr (''Successfully replaced '' @ quoted old_string @ '' with '' @
                 quoted new_string @ '' in '' @ quoted doc_id),
            AList.update doc_id (str_replace content old_string new_string) s)"
  using assms by (simp add: edit_document_def)

lemma edit_document_failure:
  assumes "map_of s doc_id = Some content" and "\<not> str_contains content old_string"
  shows "edit_document doc_id old_string new_string s =
           (Inl (SubstringNotFound old_string doc_id), s)"
  using assms by (simp add: edit_document_def)

lemma read_after_update:
  "read_doc_contents doc_id (AList.update doc_id v s) = (Inr v, AList.update doc_id v s)"
  by (simp add: read_doc_contents_def map_of_update_same)

lemma docs_plan:
  "map_of docs ''plan.md'' = Some ''The plan outlines the steps for the project's implementation.''"
  by (simp add: docs_def)

lemma docs_report:
  "map_of docs ''report.pdf'' = Some ''The report details the state of a 20m condenser tower.''"
  by (simp add: docs_def)

lemma docs_keys:
  "map fst docs =
     [''deposition.md'', ''report.pdf'', ''financials.docx'', ''outlook.pdf'', ''plan.md'',
      ''spec.txt'']"
  by (simp add: docs_def)

subsection \<open>Editing\<close>

text \<open>
  C1. For a document id of the store and an \<open>old_string\<close> that occurs in its content,
  \<open>edit_document\<close> returns a success message that names the document and stores a new
  content \<open>r\<close> under that id, which a following \<open>read_doc_contents\<close> returns. For a
  non-empty \<open>old_string\<close>, \<open>r\<close> is the one and only result of replacing all non-overlapping
  occurrences from the left (\<open>replaced_all\<close>); for the empty \<open>old_string\<close>, which occurs in
  every content, \<open>r\<close> is \<open>new_string\<close> laid before every character of the content and
  once more at its end. The instances after it are
  \<open>edit("plan.md", "implementation", "rollout")\<close> on the seeded store, after which the
  document reads "The plan outlines the steps for the project's rollout.", and
  \<open>edit("report.pdf", "", "*")\<close>.
\<close>

theorem edit_document_replaces_all:
  assumes "map_of s doc_id = Some content" and "str_contains content old_string"
  shows "\<exists>msg r.
           edit_document doc_id old_string new_string s = (Inr msg, AList.update doc_id r s) \<and>
           sublist doc_id msg \<and>
           read_doc_contents doc_id (AList.update doc_id r s) =
             (Inr r, AList.update doc_id r s) \<and>
           (old_string \<noteq> [] \<longrightarrow>
              replaced_all old_string new_string content r \<and>
              (\<forall>r'. replaced_all old_string new_string content r' \<longrightarrow> r' = r)) \<and>
           (old_string = [] \<longrightarrow>
              r = concat (map (\<lambda>c. new_string @ [c]) content) @ new_string)"
proof -
  let ?msg = "''Successfully replaced '' @ quoted old_string @ '' with '' @
                 quoted new_string @ '' in '' @ quoted doc_id"
  let ?r = "str_replace content old_string new_string"
  have "edit_document doc_id old_string new_string s = (Inr ?msg, AList.update doc_id ?r s)"
    by (rule edit_document_success[OF assms])
  moreover have "sublist doc_id ((''Successfully replaced '' @ quoted old_string @ '' with '' @
                 quoted new_string @ '' in '') @ quoted doc_id)"
    by (rule sublist_quoted_end)
  then have "sublist doc_id ?msg"
    by simp
  moreover have "read_doc_contents doc_id (AList.update doc_id ?r s) =
                   (Inr ?r, AList.update doc_id ?r s)"
    by (rule read_after_update)
  moreover have "old_string \<noteq> [] \<longrightarrow>
              replaced_all old_string new_string content ?r \<and>
              (\<forall>r'. replaced_all old_string new_string content r' \<longrightarrow> r' = ?r)"
    by (simp add: replaced_all_iff str_replace_def)
  moreover have "old_string = [] \<longrightarrow>
              ?r = concat (map (\<lambda>c. new_string @ [c]) content) @ new_string"
    by (simp add: str_replace_def replace_interleave_alt)
  ultimately show ?thesis by blast
qed

theorem edit_document_replaces_all_witness:
  "map_of docs ''plan.md'' = Some ''The plan outlines the steps for the project's implementation.'' \<and>
   str_contains ''The plan outlines the steps for the project's implementation.'' ''implementation'' \<and>
   ''implementation'' \<noteq> [] \<and>
   (\<exists>msg. edit_document ''plan.md'' ''implementation'' ''rollout'' docs =
            (Inr msg,
             AList.update ''plan.md'' ''The plan outlines the steps for the project's rollout.''
               docs) \<and>
          sublist ''plan.md'' msg) \<and>
   read_doc_contents ''plan.md''
       (AList.update ''plan.md'' ''The plan outlines the steps for the project's rollout.'' docs) =
     (Inr ''The plan outlines the steps for the project's rollout.'',
      AList.update ''plan.md'' ''The plan outlines the steps for the project's rollout.'' docs) \<and>
   replaced_all ''implementation'' ''rollout''
     ''The plan outlines the steps for the project's implementation.''
     ''The plan outlines the steps for the project's rollout.'' \<and>
   map_of docs ''report.pdf'' = Some ''The report details the state of a 20m condenser tower.'' \<and>
   str_contains ''The report details the state of a 20m condenser tower.'' [] \<and>
   (\<exists>msg. edit_document ''report.pdf'' [] ''*'' docs =
            (Inr msg,
             AList.update ''report.pdf''
               ''*T*h*e* *r*e*p*o*r*t* *d*e*t*a*i*l*s* *t*h*e* *s*t*a*t*e* *o*f* *a* *2*0*m* *c*o*n*d*e*n*s*e*r* *t*o*w*e*r*.*''
               docs) \<and>
          sublist ''report.pdf'' msg)"
proof -
  let ?seeded = "''The plan outlines the steps for the project's implementation.''"
  let ?edited = "''The plan outlines the steps for the project's rollout.''"
  have found: "str_contains ?seeded ''implementation''"
    by simp
  have nonempty: "''implementation'' \<noteq> []"
    by simp
  have "replace_scan ''implementation'' ''rollout'' ?seeded = ?edited"
    by simp
  then have scan: "replaced_all ''implementation'' ''rollout'' ?seeded ?edited"
    using replaced_all_iff[OF nonempty, of "''rollout''" ?seeded ?edited] by simp
  from edit_document_replaces_all[OF docs_plan found, of "''rollout''"]
  obtain msg r where
    e: "edit_document ''plan.md'' ''implementation'' ''rollout'' docs =
          (Inr msg, AList.update ''plan.md'' r docs)"
    and m: "sublist ''plan.md'' msg"
    and rd: "read_doc_contents ''plan.md'' (AList.update ''plan.md'' r docs) =
          (Inr r, AList.update ''plan.md'' r docs)"
    and u: "\<forall>r'. replaced_all ''implementation'' ''rollout'' ?seeded r' \<longrightarrow> r' = r"
    using nonempty by blast
  have r: "r = ?edited"
    using u scan by blast
  let ?report = "''The report details the state of a 20m condenser tower.''"
  have always: "str_contains ?report []"
    by simp
  from edit_document_replaces_all[OF docs_report always, of "''*''"]
  obtain msg' r' where
    e': "edit_document ''report.pdf'' [] ''*'' docs = (Inr msg', AList.update ''report.pdf'' r' docs)"
    and m': "sublist ''report.pdf'' msg'"
    and i: "r' = concat (map (\<lambda>c. ''*'' @ [c]) ?report) @ ''*''"
    by blast
  have r': "r' = ''*T*h*e* *r*e*p*o*r*t* *d*e*t*a*i*l*s* *t*h*e* *s*t*a*t*e* *o*f* *a* *2*0*m* *c*o*n*d*e*n*s*e*r* *t*o*w*e*r*.*''"
    unfolding i by simp
  show ?thesis
    using docs_plan found nonempty e m rd scan docs_report always e' m'
    unfolding r r' by blast
qed

text \<open>
  C2. For a document id of the store and an \<open>old_string\<close> that does not occur in its
  content, \<open>edit_document\<close> raises the substring-not-found \<open>ValueError\<close>, whose message
  names \<open>old_string\<close> and \<open>doc_id\<close> and is never a document-not-found message, and the
  store it leaves is the store it found.
\<close>

theorem edit_document_substring_not_found:
  assumes "map_of s doc_id = Some content" and "\<not> str_contains content old_string"
  shows "edit_document doc_id old_string new_string s =
           (Inl (SubstringNotFound old_string doc_id), s) \<and>
         (\<exists>msg. SubstringNotFound old_string doc_id = ValueError msg \<and>
            sublist old_string msg \<and> sublist doc_id msg) \<and>
         (\<forall>d. SubstringNotFound old_string doc_id \<noteq> NotFound d)"
proof (intro conjI)
  show "edit_document doc_id old_string new_string s =
           (Inl (SubstringNotFound old_string doc_id), s)"
    by (rule edit_document_failure[OF assms])
  have "sublist old_string (''String '' @ quoted old_string @
           ('' not found in document '' @ quoted doc_id))"
    by (rule sublist_quoted)
  moreover have "sublist doc_id ((''String '' @ quoted old_string @
           '' not found in document '') @ quoted doc_id)"
    by (rule sublist_quoted_end)
  ultimately show "\<exists>msg. SubstringNotFound old_string doc_id = ValueError msg \<and>
            sublist old_string msg \<and> sublist doc_id msg"
    by (simp add: SubstringNotFound_def)
  show "\<forall>d. SubstringNotFound old_string doc_id \<noteq> NotFound d"
    by (simp add: SubstringNotFound_def NotFound_def)
qed

theorem edit_document_substring_not_found_witness:
  "map_of docs ''plan.md'' = Some ''The plan outlines the steps for the project's implementation.'' \<and>
   \<not> str_contains ''The plan outlines the steps for the project's implementation.'' ''budget'' \<and>
   edit_document ''plan.md'' ''budget'' ''cost'' docs =
     (Inl (SubstringNotFound ''budget'' ''plan.md''), docs)"
proof -
  have absent: "\<not> str_contains ''The plan outlines the steps for the project's implementation.''
                    ''budget''"
    by simp
  from edit_document_substring_not_found[OF docs_plan absent, of "''cost''"]
  show ?thesis using docs_plan absent by simp
qed




text \<open>
  C6 (as amended). After a successful \<open>edit(id, old, new)\<close> with a non-empty \<open>old\<close>,
  the identical call raises the substring-not-found error, leaving the store as it is,
  whenever \<open>old\<close> does not occur in the updated content; when \<open>new\<close> holds \<open>old\<close>, the
  updated content still holds \<open>old\<close> and the identical call succeeds; and when \<open>old\<close> is
  a single character, the updated content can hold \<open>old\<close> only if \<open>new\<close> does. For a
  longer \<open>old\<close> that last part does not hold, as the counterexample after it shows.
\<close>

theorem edit_rerun:
  assumes "map_of s doc_id = Some content" and "old_string \<noteq> []"
    and "str_contains content old_string"
  shows "(\<exists>msg. edit_document doc_id old_string new_string s =
            (Inr msg, AList.update doc_id (str_replace content old_string new_string) s)) \<and>
         (\<not> str_contains (str_replace content old_string new_string) old_string \<longrightarrow>
            edit_document doc_id old_string new_string
                (AList.update doc_id (str_replace content old_string new_string) s) =
              (Inl (SubstringNotFound old_string doc_id),
               AList.update doc_id (str_replace content old_string new_string) s)) \<and>
         (str_contains new_string old_string \<longrightarrow>
            str_contains (str_replace content old_string new_string) old_string \<and>
            (\<exists>msg. fst (edit_document doc_id old_string new_string
                (AList.update doc_id (str_replace content old_string new_string) s)) = Inr msg)) \<and>
         (length old_string = 1 \<and>
          str_contains (str_replace content old_string new_string) old_string \<longrightarrow>
            str_contains new_string old_string)"
proof (intro conjI impI)
  let ?c1 = "str_replace content old_string new_string"
  let ?s1 = "AList.update doc_id ?c1 s"
  have m1: "map_of ?s1 doc_id = Some ?c1"
    by (rule map_of_update_same)
  show "\<exists>msg. edit_document doc_id old_string new_string s = (Inr msg, ?s1)"
    using edit_document_success[OF assms(1,3)] by simp
  show "edit_document doc_id old_string new_string ?s1 =
          (Inl (SubstringNotFound old_string doc_id), ?s1)"
    if "\<not> str_contains ?c1 old_string"
    by (rule edit_document_failure[OF m1 that])
  have still: "str_contains ?c1 old_string" if "str_contains new_string old_string"
  proof -
    have "sublist old_string new_string"
      using that by (simp add: str_contains_iff_sublist)
    moreover have "sublist new_string ?c1"
      using assms(3) by (simp add: sublist_replaced str_contains_iff_sublist)
    ultimately show ?thesis
      unfolding str_contains_iff_sublist by (rule sublist_order.order.trans)
  qed
  then show "str_contains ?c1 old_string" if "str_contains new_string old_string"
    using that .
  show "\<exists>msg. fst (edit_document doc_id old_string new_string ?s1) = Inr msg"
    if "str_contains new_string old_string"
    using edit_document_success[OF m1 still[OF that]] by simp
  show "str_contains new_string old_string"
    if "length old_string = 1 \<and> str_contains ?c1 old_string"
  proof -
    from that obtain x where x: "old_string = [x]"
      by (cases old_string) auto
    with that have "x \<in> set (replace_scan [x] new_string content)"
      by (simp add: str_contains_iff_sublist sublist_single str_replace_def)
    then have "x \<in> set new_string"
      by (rule replace_scan_single_fresh)
    then show ?thesis
      by (simp add: x str_contains_iff_sublist sublist_single)
  qed
qed

theorem edit_rerun_witness:
  "map_of docs ''plan.md'' = Some ''The plan outlines the steps for the project's implementation.'' \<and>
   ''implementation'' \<noteq> [] \<and> ''plan'' \<noteq> [] \<and> ''p'' \<noteq> [] \<and>
   str_contains ''The plan outlines the steps for the project's implementation.'' ''implementation'' \<and>
   str_contains ''The plan outlines the steps for the project's implementation.'' ''plan'' \<and>
   str_contains ''The plan outlines the steps for the project's implementation.'' ''p'' \<and>
   \<not> str_contains ''The plan outlines the steps for the project's rollout.'' ''implementation'' \<and>
   edit_document ''plan.md'' ''implementation'' ''rollout''
       (AList.update ''plan.md'' ''The plan outlines the steps for the project's rollout.'' docs) =
     (Inl (SubstringNotFound ''implementation'' ''plan.md''),
      AList.update ''plan.md'' ''The plan outlines the steps for the project's rollout.'' docs) \<and>
   str_contains ''plans'' ''plan'' \<and>
   (\<exists>msg. fst (edit_document ''plan.md'' ''plan'' ''plans''
      (AList.update ''plan.md'' ''The plans outlines the steps for the project's implementation.''
         docs)) = Inr msg) \<and>
   length ''p'' = 1 \<and>
   str_contains ''The pplan outlines the stepps for the pproject's impplementation.'' ''p'' \<and>
   str_contains ''pp'' ''p''"
proof -
  let ?c = "''The plan outlines the steps for the project's implementation.''"
  have c1: "str_contains ?c ''implementation''" and c2: "str_contains ?c ''plan''"
    and c3: "str_contains ?c ''p''"
    by simp_all
  have r1: "str_replace ?c ''implementation'' ''rollout'' =
              ''The plan outlines the steps for the project's rollout.''"
    by (simp add: str_replace_def)
  have r2: "str_replace ?c ''plan'' ''plans'' =
              ''The plans outlines the steps for the project's implementation.''"
    by (simp add: str_replace_def)
  have r3: "str_replace ?c ''p'' ''pp'' =
              ''The pplan outlines the stepps for the pproject's impplementation.''"
    by (simp add: str_replace_def)
  have gone: "\<not> str_contains ''The plan outlines the steps for the project's rollout.''
                   ''implementation''"
    by simp
  have kept: "str_contains ''plans'' ''plan''"
    by simp
  have single: "length ''p'' = 1 \<and>
      str_contains ''The pplan outlines the stepps for the pproject's impplementation.'' ''p''"
    by simp
  have a: "edit_document ''plan.md'' ''implementation'' ''rollout''
       (AList.update ''plan.md'' ''The plan outlines the steps for the project's rollout.'' docs) =
     (Inl (SubstringNotFound ''implementation'' ''plan.md''),
      AList.update ''plan.md'' ''The plan outlines the steps for the project's rollout.'' docs)"
    using edit_rerun[OF docs_plan _ c1, of "''rollout''"] gone unfolding r1 by simp
  have b: "\<exists>msg. fst (edit_document ''plan.md'' ''plan'' ''plans''
      (AList.update ''plan.md'' ''The plans outlines the steps for the project's implementation.''
         docs)) = Inr msg"
    using edit_rerun[OF docs_plan _ c2, of "''plans''"] kept unfolding r2 by simp
  have c: "str_contains ''pp'' ''p''"
    using edit_rerun[OF docs_plan _ c3, of "''pp''"] single unfolding r3 by simp
  show ?thesis
    using docs_plan c1 c2 c3 gone kept single a b c by simp
qed

text \<open>
  C6 as stated fails one edit after the seeded store. After
  \<open>edit("plan.md", "implementation", "rollout")\<close> the call \<open>edit("plan.md", "lo", "o")\<close>
  turns \<open>rollout\<close> into \<open>rolout\<close>: the \<open>l\<close> in front of the match and the inserted \<open>o\<close>
  form a new \<open>lo\<close>, so the identical call succeeds again, although \<open>o\<close> does not hold
  \<open>lo\<close>.
\<close>

theorem edit_rerun_counterexample:
  "snd (edit_document ''plan.md'' ''implementation'' ''rollout'' docs) =
     AList.update ''plan.md'' ''The plan outlines the steps for the project's rollout.'' docs \<and>
   map_of (AList.update ''plan.md'' ''The plan outlines the steps for the project's rollout.'' docs)
       ''plan.md'' =
     Some ''The plan outlines the steps for the project's rollout.'' \<and>
   ''lo'' \<noteq> [] \<and>
   str_contains ''The plan outlines the steps for the project's rollout.'' ''lo'' \<and>
   edit_document ''plan.md'' ''lo'' ''o''
       (AList.update ''plan.md'' ''The plan outlines the steps for the project's rollout.'' docs) =
     (Inr (''Successfully replaced '' @ quoted ''lo'' @ '' with '' @ quoted ''o'' @ '' in '' @
           quoted ''plan.md''),
      AList.update ''plan.md'' ''The plan outlines the steps for the project's rolout.'' docs) \<and>
   edit_document ''plan.md'' ''lo'' ''o''
       (AList.update ''plan.md'' ''The plan outlines the steps for the project's rolout.'' docs) =
     (Inr (''Successfully replaced '' @ quoted ''lo'' @ '' with '' @ quoted ''o'' @ '' in '' @
           quoted ''plan.md''),
      AList.update ''plan.md'' ''The plan outlines the steps for the project's roout.'' docs) \<and>
   \<not> str_contains ''o'' ''lo''"
proof -
  let ?seeded = "''The plan outlines the steps for the project's implementation.''"
  let ?rollout = "''The plan outlines the steps for the project's rollout.''"
  let ?rolout = "''The plan outlines the steps for the project's rolout.''"
  have h0: "str_contains ?seeded ''implementation''" by simp
  have r0: "str_replace ?seeded ''implementation'' ''rollout'' = ?rollout"
    by (simp add: str_replace_def)
  have h1: "str_contains ?rollout ''lo''" by simp
  have r1: "str_replace ?rollout ''lo'' ''o'' = ?rolout"
    by (simp add: str_replace_def)
  have h2: "str_contains ?rolout ''lo''" by simp
  have r2: "str_replace ?rolout ''lo'' ''o'' = ''The plan outlines the steps for the project's roout.''"
    by (simp add: str_replace_def)
  have m0: "map_of (AList.update ''plan.md'' ?rollout docs) ''plan.md'' = Some ?rollout"
    by (rule map_of_update_same)
  have m1: "map_of (AList.update ''plan.md'' ?rolout docs) ''plan.md'' = Some ?rolout"
    by (rule map_of_update_same)
  have e0: "snd (edit_document ''plan.md'' ''implementation'' ''rollout'' docs) =
              AList.update ''plan.md'' ?rollout docs"
    using edit_document_success[OF docs_plan h0, of "''rollout''"] unfolding r0 by simp
  have e1: "edit_document ''plan.md'' ''lo'' ''o'' (AList.update ''plan.md'' ?rollout docs) =
     (Inr (''Successfully replaced '' @ quoted ''lo'' @ '' with '' @ quoted ''o'' @ '' in '' @
           quoted ''plan.md''),
      AList.update ''plan.md'' ?rolout docs)"
    using edit_document_success[OF m0 h1, of "''o''"] unfolding r1 update_last .
  have e2: "edit_document ''plan.md'' ''lo'' ''o'' (AList.update ''plan.md'' ?rolout docs) =
     (Inr (''Successfully replaced '' @ quoted ''lo'' @ '' with '' @ quoted ''o'' @ '' in '' @
           quoted ''plan.md''),
      AList.update ''plan.md'' ''The plan outlines the steps for the project's roout.'' docs)"
    using edit_document_success[OF m1 h2, of "''o''"] unfolding r2 update_last .
  have "\<not> str_contains ''o'' ''lo''" by simp
  then show ?thesis
    using e0 m0 h1 e1 e2 by simp
qed

text \<open>
  C10. For a document id of the store, \<open>edit_document\<close> with the empty \<open>old_string\<close> does
  not raise: it returns a success message and stores \<open>new_string\<close> laid before every
  character of the content and once more at the end, a text of length
  \<open>n + (n + 1) * length new_string\<close> for a content of length \<open>n\<close>, which a following
  \<open>read_doc_contents\<close> returns.
\<close>

theorem edit_document_empty_old:
  assumes "map_of s doc_id = Some content"
  shows "(\<exists>msg. edit_document doc_id [] new_string s =
            (Inr msg,
             AList.update doc_id (concat (map (\<lambda>c. new_string @ [c]) content) @ new_string) s)) \<and>
         read_doc_contents doc_id (snd (edit_document doc_id [] new_string s)) =
           (Inr (concat (map (\<lambda>c. new_string @ [c]) content) @ new_string),
            snd (edit_document doc_id [] new_string s)) \<and>
         length (concat (map (\<lambda>c. new_string @ [c]) content) @ new_string) =
           length content + (length content + 1) * length new_string"
proof -
  have "str_contains content []"
    by (simp add: str_contains_iff_sublist)
  from edit_document_success[OF assms this, of new_string]
  have ok: "edit_document doc_id [] new_string s =
      (Inr (''Successfully replaced '' @ quoted [] @ '' with '' @
                 quoted new_string @ '' in '' @ quoted doc_id),
       AList.update doc_id (concat (map (\<lambda>c. new_string @ [c]) content) @ new_string) s)"
    by (simp add: str_replace_def replace_interleave_alt)
  have "length (concat (map (\<lambda>c. new_string @ [c]) content) @ new_string) =
           length content + (length content + 1) * length new_string"
    using length_replace_interleave[of new_string content]
    by (simp only: replace_interleave_alt)
  then show ?thesis
    by (simp add: ok read_after_update)
qed

theorem edit_document_empty_old_witness:
  "map_of docs ''plan.md'' = Some ''The plan outlines the steps for the project's implementation.'' \<and>
   (\<exists>msg. fst (edit_document ''plan.md'' [] ''-'' docs) = Inr msg) \<and>
   fst (read_doc_contents ''plan.md'' (snd (edit_document ''plan.md'' [] ''-'' docs))) =
     Inr ''-T-h-e- -p-l-a-n- -o-u-t-l-i-n-e-s- -t-h-e- -s-t-e-p-s- -f-o-r- -t-h-e- -p-r-o-j-e-c-t-'-s- -i-m-p-l-e-m-e-n-t-a-t-i-o-n-.-''"
proof -
  from edit_document_empty_old[OF docs_plan, of "''-''"]
  show ?thesis using docs_plan by auto
qed

subsection \<open>Reading and listing\<close>

text \<open>
  C4. After any finite sequence of requests (reads, edits, listings, lookups by id and
  prompts, returning or raising) on the seeded store, \<open>list_documents\<close> returns, without
  raising, the six seeded ids (in their seeded order), which as a set are exactly the six
  ids of the seed table.
\<close>

theorem list_documents_invariant:
  "fst (list_documents (run rs docs)) =
     Inr [''deposition.md'', ''report.pdf'', ''financials.docx'', ''outlook.pdf'', ''plan.md'',
          ''spec.txt''] \<and>
   set [''deposition.md'', ''report.pdf'', ''financials.docx'', ''outlook.pdf'', ''plan.md'',
        ''spec.txt''] =
     {''deposition.md'', ''report.pdf'', ''financials.docx'', ''outlook.pdf'', ''plan.md'',
      ''spec.txt''}"
  by (simp add: list_documents_def run_keys docs_keys)

text \<open>
  C5. For a \<open>doc_id\<close> that is not a key of the store, \<open>read_doc_contents\<close> and
  \<open>get_document\<close> raise the document-not-found \<open>ValueError\<close>, whose message holds
  \<open>doc_id\<close>, and leave the store as it was; for a key, \<open>read_doc_contents\<close> returns the
  content stored under it and leaves the store as it was.
\<close>

theorem read_unknown_and_known:
  "(doc_id \<notin> set (map fst s) \<longrightarrow>
      read_doc_contents doc_id s = (Inl (NotFound doc_id), s) \<and>
      get_document doc_id s = (Inl (NotFound doc_id), s) \<and>
      (\<exists>msg. NotFound doc_id = ValueError msg \<and> sublist doc_id msg)) \<and>
   (doc_id \<in> set (map fst s) \<longrightarrow>
      (\<exists>content. map_of s doc_id = Some content \<and>
         read_doc_contents doc_id s = (Inr content, s)))"
proof (intro conjI impI)
  assume "doc_id \<notin> set (map fst s)"
  then have none: "map_of s doc_id = None"
    by (simp add: map_of_eq_None_iff)
  show "read_doc_contents doc_id s = (Inl (NotFound doc_id), s)"
    by (simp add: read_doc_contents_def none)
  show "get_document doc_id s = (Inl (NotFound doc_id), s)"
    by (simp add: get_document_def none)
  have "sublist doc_id (''Document '' @ quoted doc_id @ '' not found'')"
    by (rule sublist_quoted)
  then show "\<exists>msg. NotFound doc_id = ValueError msg \<and> sublist doc_id msg"
    by (simp add: NotFound_def)
next
  assume "doc_id \<in> set (map fst s)"
  then obtain content where "map_of s doc_id = Some content"
    by (metis map_of_eq_None_iff not_Some_eq set_map)
  then show "\<exists>content. map_of s doc_id = Some content \<and>
         read_doc_contents doc_id s = (Inr content, s)"
    by (simp add: read_doc_contents_def)
qed

theorem read_unknown_and_known_witness:
  "''missing.md'' \<notin> set (map fst docs) \<and>
   read_doc_contents ''missing.md'' docs = (Inl (NotFound ''missing.md''), docs) \<and>
   get_document ''missing.md'' docs = (Inl (NotFound ''missing.md''), docs) \<and>
   (\<exists>msg. NotFound ''missing.md'' = ValueError msg \<and> sublist ''missing.md'' msg) \<and>
   ''plan.md'' \<in> set (map fst docs) \<and>
   read_doc_contents ''plan.md'' docs =
     (Inr ''The plan outlines the steps for the project's implementation.'', docs)"
proof -
  have absent: "''missing.md'' \<notin> set (map fst docs)"
    by (simp add: docs_keys)
  have present: "''plan.md'' \<in> set (map fst docs)"
    by (simp add: docs_keys)
  from read_unknown_and_known[of "''missing.md''" docs] read_unknown_and_known[of "''plan.md''" docs]
  show ?thesis using absent present docs_plan by simp
qed

text \<open>
  C7. On the seeded store, before any edit, \<open>read_doc_contents\<close> returns for each of the
  six seeded ids the content of the seed table, character for character.
\<close>

theorem seeded_contents:
  "read_doc_contents ''deposition.md'' docs =
     (Inr ''This deposition covers the testimony of Angela Smith, P.E.'', docs) \<and>
   read_doc_contents ''report.pdf'' docs =
     (Inr ''The report details the state of a 20m condenser tower.'', docs) \<and>
   read_doc_contents ''financials.docx'' docs =
     (Inr ''These financials outline the project's budget and expenditures.'', docs) \<and>
   read_doc_contents ''outlook.pdf'' docs =
     (Inr ''This document presents the projected future performance of the system.'', docs) \<and>
   read_doc_contents ''plan.md'' docs =
     (Inr ''The plan outlines the steps for the project's implementation.'', docs) \<and>
   read_doc_contents ''spec.txt'' docs =
     (Inr ''These specifications define the technical requirements for the equipment.'', docs)"
proof -
  have m: "map_of docs ''deposition.md'' =
             Some ''This deposition covers the testimony of Angela Smith, P.E.''"
    "map_of docs ''report.pdf'' = Some ''The report details the state of a 20m condenser tower.''"
    "map_of docs ''financials.docx'' =
       Some ''These financials outline the project's budget and expenditures.''"
    "map_of docs ''outlook.pdf'' =
       Some ''This document presents the projected future performance of the system.''"
    "map_of docs ''spec.txt'' =
       Some ''These specifications define the technical requirements for the equipment.''"
    by (simp_all add: docs_def)
  show ?thesis
    by (simp add: read_doc_contents_def m docs_plan)
qed

text \<open>
  C8. \<open>get_document\<close> and \<open>read_doc_contents\<close> agree on every id and every store: the same
  content, or the same error, and the same store afterwards.
\<close>

theorem get_document_eq_read:
  "get_document doc_id s = read_doc_contents doc_id s"
  by (simp add: get_document_def read_doc_contents_def)

subsection \<open>Prompts\<close>

text \<open>
  C9. For every \<open>doc_id\<close>, in the store or not, \<open>format\<close> and \<open>summarize\<close> return a text
  (they never raise) that depends on \<open>doc_id\<close> alone, and leave the store, contents and
  keys, as it was.
\<close>

theorem prompts_pure:
  "(\<exists>text. \<forall>s. format doc_id s = (Inr text, s)) \<and>
   (\<exists>text. \<forall>s. summarize doc_id s = (Inr text, s))"
  by (simp add: format_def summarize_def)

end
